theory Spec2Isabelle
  imports Main "HOL-Library.List_Lexorder" "HOL-Library.Char_ord"
begin

section \<open>Values, exceptions and the world\<close>

text \<open>
  The module \<^verbatim>\<open>swarms/models/base_multimodal_model.py\<close> defines the class
  \<^verbatim>\<open>BaseMultiModalModel\<close>. Its method \<^verbatim>\<open>run\<close> is the collaborator that a
  subclass supplies; the batch and retry helpers call it. What \<^verbatim>\<open>run\<close> returns is a
  Python value: a string, or \<^verbatim>\<open>None\<close> (the stub of the base class returns \<^verbatim>\<open>None\<close>).
\<close>

datatype pyval = PyNone | PyStr string

fun str_pyval :: "pyval \<Rightarrow> string" where
  "str_pyval PyNone = ''None''"
| "str_pyval (PyStr s) = s"

text \<open>
  Exceptions carry their message. \<open>TypeError\<close>, \<open>ValueError\<close> and \<open>RuntimeError\<close> are
  the built-in errors that the modelled code raises by itself; \<open>StopIteration\<close> is kept
  apart because a generator turns it into a \<^verbatim>\<open>RuntimeError\<close>; \<open>Exception\<close> stands for
  any other exception derived from \<^verbatim>\<open>Exception\<close>; \<open>BaseException\<close> stands for an
  exception that derives from \<^verbatim>\<open>BaseException\<close> only (\<^verbatim>\<open>SystemExit\<close>,
  \<^verbatim>\<open>KeyboardInterrupt\<close>, \<^verbatim>\<open>GeneratorExit\<close>), which a clause \<^verbatim>\<open>except Exception\<close> does
  not catch.
\<close>

datatype exn =
  Exception string
| TypeError string
| ValueError string
| RuntimeError string
| StopIteration string
| BaseException string

fun isinstance_Exception :: "exn \<Rightarrow> bool" where
  "isinstance_Exception (Exception m) = True"
| "isinstance_Exception (TypeError m) = True"
| "isinstance_Exception (ValueError m) = True"
| "isinstance_Exception (RuntimeError m) = True"
| "isinstance_Exception (StopIteration m) = True"
| "isinstance_Exception (BaseException m) = False"

fun str_exn :: "exn \<Rightarrow> string" where
  "str_exn (Exception m) = m"
| "str_exn (TypeError m) = m"
| "str_exn (ValueError m) = m"
| "str_exn (RuntimeError m) = m"
| "str_exn (StopIteration m) = m"
| "str_exn (BaseException m) = m"

text \<open>
  The observable behaviour is recorded as a trace of events, oldest first: every
  invocation of \<^verbatim>\<open>run\<close> with its arguments, every call of \<^verbatim>\<open>run_batch\<close> with its
  batch, and every line written by \<^verbatim>\<open>print\<close>. The calls are recorded for the proofs
  (the code keeps no such log); the printed lines are the code's own output.
\<close>

datatype event =
  RunCall string string
| RunBatchCall "(string \<times> string) list"
| Printed string



text \<open>
  The world: \<open>env\<close> is whatever \<^verbatim>\<open>run\<close> reads and writes (the model's weights, a
  remote service, a counter of a test double), \<open>cpu_count\<close> is what
  \<^verbatim>\<open>os.cpu_count()\<close> reports, \<open>trace\<close> is the event trace.
\<close>

record 'w world =
  env :: 'w
  cpu_count :: nat
  trace :: "event list"

text \<open>
  \<^verbatim>\<open>self.run(task, img)\<close>: returns a value or raises, and may change \<open>env\<close>.
\<close>

type_synonym 'w runner = "string \<Rightarrow> string \<Rightarrow> 'w \<Rightarrow> (exn + pyval) \<times> 'w"

text \<open>
  The fields of \<^verbatim>\<open>BaseMultiModalModel\<close> that the modelled methods read. Both numbers
  are declared \<^verbatim>\<open>Optional[int]\<close>, so \<^verbatim>\<open>None\<close> is a value of theirs. The other fields
  set by \<^verbatim>\<open>__init__\<close> (model_name, temperature, max_tokens, top_p, top_k, beautify,
  device, max_new_tokens) are passive configuration that no modelled method reads.
\<close>

record BaseMultiModalModel =
  max_workers :: "int option"
  retries :: "int option"
  chat_history :: "string list"

text \<open>
  \<^verbatim>\<open>__init__\<close> with its defaults \<^verbatim>\<open>max_workers = 10\<close>, \<^verbatim>\<open>retries = 3\<close> and an empty
  chat history.
\<close>

definition init :: "int option \<Rightarrow> int option \<Rightarrow> BaseMultiModalModel" where
  "init mw r = \<lparr>max_workers = mw, retries = r, chat_history = []\<rparr>"

definition init_default :: BaseMultiModalModel where
  "init_default = init (Some 10) (Some 3)"

definition print_line :: "string \<Rightarrow> 'w world \<Rightarrow> 'w world" where
  "print_line line w = w\<lparr>trace := trace w @ [Printed line]\<rparr>"

definition call_run :: "'w runner \<Rightarrow> string \<Rightarrow> string \<Rightarrow> 'w world \<Rightarrow> (exn + pyval) \<times> 'w world" where
  "call_run run task img w =
     (case run task img (env w) of
        (r, s) \<Rightarrow> (r, w\<lparr>env := s, trace := trace w @ [RunCall task img]\<rparr>))"

section \<open>The thread pool, as far as results go\<close>

text \<open>
  \<^verbatim>\<open>ThreadPoolExecutor(max_workers)\<close> of \<^verbatim>\<open>concurrent.futures\<close>: with \<^verbatim>\<open>None\<close> the
  pool has \<^verbatim>\<open>min(32, (os.cpu_count() or 1) + 4)\<close> workers, a number at most \<open>0\<close> raises
  \<^verbatim>\<open>ValueError\<close>. The result is the number of workers. (Line 5 of the module imports
  the class from \<^verbatim>\<open>concurrent\<close>; it is read as the class of \<^verbatim>\<open>concurrent.futures\<close> that
  \<^verbatim>\<open>run_batch\<close> names in full.)
\<close>

definition default_max_workers :: "nat \<Rightarrow> nat" where
  "default_max_workers cpus = min 32 ((if cpus = 0 then 1 else cpus) + 4)"

definition ThreadPoolExecutor :: "nat \<Rightarrow> int option \<Rightarrow> exn + nat" where
  "ThreadPoolExecutor cpus mw =
     (case mw of
        None \<Rightarrow> Inr (default_max_workers cpus)
      | Some n \<Rightarrow>
          if n \<le> 0 then Inl (ValueError ''max_workers must be greater than 0'')
          else Inr (nat n))"

text \<open>
  The threads of the pool may run the submitted calls in any order. A call of \<^verbatim>\<open>run\<close>
  is taken as one step, so an execution of \<open>n\<close> submitted calls is an order of the
  indices \<open>0, \<dots>, n - 1\<close>. The batch methods take it as the parameter \<open>order\<close>: the calls
  that \<open>order\<close> lists run first, in the order listed, and the calls it leaves out run
  after them in the order of submission; an entry that is repeated or not an index is
  passed over. So \<open>[]\<close> is the order of submission, and whatever \<open>order\<close> is, every
  submitted call runs exactly once, as the exit of the \<^verbatim>\<open>with\<close> block makes sure. A
  small pool cannot run its calls in every order; what holds for every \<open>order\<close> holds for
  the orders it can.
\<close>

definition schedule_of :: "nat \<Rightarrow> nat list \<Rightarrow> nat list" where
  "schedule_of n order =
     filter (\<lambda>i. i < n) (remdups order) @ filter (\<lambda>i. i \<notin> set order) [0..<n]"

text \<open>The place of a call in a schedule.\<close>

fun position :: "nat \<Rightarrow> nat list \<Rightarrow> nat" where
  "position i [] = 0"
| "position i (j # js) = (if i = j then 0 else Suc (position i js))"

text \<open>The given calls, run one after the other; the outcomes are in the order of the runs.\<close>

fun run_each :: "'w runner \<Rightarrow> (string \<times> string) list \<Rightarrow> 'w world \<Rightarrow> (exn + pyval) list \<times> 'w world" where
  "run_each run [] w = ([], w)"
| "run_each run ((task, img) # rest) w =
     (case call_run run task img w of
        (r, w1) \<Rightarrow> (case run_each run rest w1 of (rs, w2) \<Rightarrow> (r # rs, w2)))"

text \<open>
  \<^verbatim>\<open>[executor.submit(self.run, task, img) for task, img in tasks_images]\<close> (and the
  submissions of \<^verbatim>\<open>executor.map\<close>), followed by the runs of the calls on the threads:
  the calls run in the order of the schedule, every call runs to its end, whether or not
  another one raised, and the future of index \<open>i\<close> holds what the call on pair \<open>i\<close>
  returned or raised. The result is the list of futures, in the order of submission.
  A schedule holds every index below the number of pairs once and nothing else (lemmas
  \<open>schedule_of_set\<close>, \<open>schedule_of_distinct\<close>), and every index has its place in it
  (\<open>position_less\<close>, \<open>nth_position\<close>), so no list is read out of its range.
\<close>

definition submit_all :: "'w runner \<Rightarrow> nat list \<Rightarrow> (string \<times> string) list \<Rightarrow> 'w world \<Rightarrow> (exn + pyval) list \<times> 'w world" where
  "submit_all run order pairs w =
     (let sched = schedule_of (length pairs) order in
      case run_each run (map (\<lambda>i. pairs ! i) sched) w of
        (outs, w1) \<Rightarrow> (map (\<lambda>i. outs ! position i sched) [0..<length pairs], w1))"

text \<open>
  \<^verbatim>\<open>[future.result() for future in futures]\<close>: the results are collected from index 0
  upwards, and \<^verbatim>\<open>result()\<close> raises again what the call raised.
\<close>

fun future_results :: "(exn + pyval) list \<Rightarrow> exn + pyval list" where
  "future_results [] = Inr []"
| "future_results (Inl e # fs) = Inl e"
| "future_results (Inr v # fs) =
     (case future_results fs of Inl e \<Rightarrow> Inl e | Inr vs \<Rightarrow> Inr (v # vs))"

section \<open>run_batch\<close>

text \<open>
  \<^verbatim>\<open>
  def run_batch(self, tasks_images):
      with concurrent.futures.ThreadPoolExecutor() as executor:
          futures = [executor.submit(self.run, task, img) for task, img in tasks_images]
          results = [future.result() for future in futures]
      return results
  \<close>
  The pool is built without \<^verbatim>\<open>max_workers\<close>. \<open>batch_start\<close> records the call in the
  trace; it is the world in which the invocations of the batch start.
\<close>

definition batch_start :: "(string \<times> string) list \<Rightarrow> 'w world \<Rightarrow> 'w world" where
  "batch_start pairs w = w\<lparr>trace := trace w @ [RunBatchCall pairs]\<rparr>"

definition run_batch :: "BaseMultiModalModel \<Rightarrow> 'w runner \<Rightarrow> nat list \<Rightarrow> (string \<times> string) list \<Rightarrow> 'w world \<Rightarrow> (exn + pyval list) \<times> 'w world" where
  "run_batch self run order tasks_images w =
     (let w0 = batch_start tasks_images w in
      case ThreadPoolExecutor (cpu_count w0) None of
        Inl e \<Rightarrow> (Inl e, w0)
      | Inr workers \<Rightarrow>
          (case submit_all run order tasks_images w0 of
             (futures, w1) \<Rightarrow> (future_results futures, w1)))"

text \<open>
  What the calls of a batch do, told from \<^verbatim>\<open>run\<close> alone: \<open>env_after_calls\<close> is what
  remains after \<^verbatim>\<open>run\<close> has been called on the given pairs one after the other, and
  \<open>outcome run pairs order s i\<close> is what the call on pair \<open>i\<close> returns or raises in the
  execution \<open>order\<close> that starts in \<open>s\<close>: \<^verbatim>\<open>run\<close> on that pair, after the calls that are
  scheduled before it.
\<close>

fun env_after_calls :: "'w runner \<Rightarrow> (string \<times> string) list \<Rightarrow> 'w \<Rightarrow> 'w" where
  "env_after_calls run [] s = s"
| "env_after_calls run ((task, img) # rest) s = env_after_calls run rest (snd (run task img s))"

definition outcome :: "'w runner \<Rightarrow> (string \<times> string) list \<Rightarrow> nat list \<Rightarrow> 'w \<Rightarrow> nat \<Rightarrow> exn + pyval" where
  "outcome run pairs order s i =
     (let sched = schedule_of (length pairs) order;
          earlier = map (\<lambda>j. pairs ! j) (take (position i sched) sched)
      in fst (run (fst (pairs ! i)) (snd (pairs ! i)) (env_after_calls run earlier s)))"

section \<open>run_many\<close>

text \<open>
  \<^verbatim>\<open>
  def run_many(self, tasks, imgs):
      with ThreadPoolExecutor(max_workers=self.max_workers) as executor:
          results = executor.map(self.run, tasks, imgs)
      for result in results:
          print(result)
  \<close>
  \<^verbatim>\<open>executor.map\<close> submits one call for each element of \<^verbatim>\<open>zip(tasks, imgs)\<close>, which
  stops at the end of the shorter list. The loop takes the results in order from the
  generator that \<^verbatim>\<open>executor.map\<close> returns and prints them. Taking the result of a call
  that raised raises again inside that generator, and a generator that lets a
  \<^verbatim>\<open>StopIteration\<close> out raises \<^verbatim>\<open>RuntimeError\<close> in its place; every other exception
  leaves it as it is. The method returns \<^verbatim>\<open>None\<close>, here \<open>Inr ()\<close>.
\<close>

fun generator_raise :: "exn \<Rightarrow> exn" where
  "generator_raise (StopIteration m) = RuntimeError ''generator raised StopIteration''"
| "generator_raise (Exception m) = Exception m"
| "generator_raise (TypeError m) = TypeError m"
| "generator_raise (ValueError m) = ValueError m"
| "generator_raise (RuntimeError m) = RuntimeError m"
| "generator_raise (BaseException m) = BaseException m"

fun print_results :: "(exn + pyval) list \<Rightarrow> 'w world \<Rightarrow> (exn + unit) \<times> 'w world" where
  "print_results [] w = (Inr (), w)"
| "print_results (Inl e # fs) w = (Inl (generator_raise e), w)"
| "print_results (Inr result # fs) w = print_results fs (print_line (str_pyval result) w)"

definition run_many :: "BaseMultiModalModel \<Rightarrow> 'w runner \<Rightarrow> nat list \<Rightarrow> string list \<Rightarrow> string list \<Rightarrow> 'w world \<Rightarrow> (exn + unit) \<times> 'w world" where
  "run_many self run order tasks imgs w =
     (case ThreadPoolExecutor (cpu_count w) (max_workers self) of
        Inl e \<Rightarrow> (Inl e, w)
      | Inr workers \<Rightarrow>
          (case submit_all run order (zip tasks imgs) w of
             (results, w1) \<Rightarrow> print_results results w1))"

section \<open>The retry helpers\<close>

text \<open>
  \<^verbatim>\<open>range(n)\<close> has \<open>n\<close> elements, none when \<open>n \<le> 0\<close>; \<^verbatim>\<open>range(None)\<close> raises
  \<^verbatim>\<open>TypeError\<close>.
\<close>

definition range_len :: "int \<Rightarrow> nat" where
  "range_len n = nat n"

definition range_None_error :: exn where
  "range_None_error =
     TypeError ([CHR 0x27] @ ''NoneType'' @ [CHR 0x27] @ '' object cannot be interpreted as an integer'')"

definition error_line :: "exn \<Rightarrow> string" where
  "error_line error = ''Error with the request '' @ str_exn error"

text \<open>
  \<^verbatim>\<open>
  def run_with_retries(self, task, img):
      for i in range(self.retries):
          try:
              return self.run(task, img)
          except Exception as error:
              print(f"Error with the request {error}")
              continue
  \<close>
  The loop function takes the number of iterations that are left. Falling off the end
  of the loop returns \<^verbatim>\<open>None\<close>. An exception that is not an instance of
  \<^verbatim>\<open>Exception\<close> is not caught.
\<close>

fun run_with_retries_loop :: "'w runner \<Rightarrow> string \<Rightarrow> string \<Rightarrow> nat \<Rightarrow> 'w world \<Rightarrow> (exn + pyval) \<times> 'w world" where
  "run_with_retries_loop run task img 0 w = (Inr PyNone, w)"
| "run_with_retries_loop run task img (Suc n) w =
     (case call_run run task img w of
        (Inr v, w1) \<Rightarrow> (Inr v, w1)
      | (Inl error, w1) \<Rightarrow>
          if isinstance_Exception error
          then run_with_retries_loop run task img n (print_line (error_line error) w1)
          else (Inl error, w1))"

definition run_with_retries :: "BaseMultiModalModel \<Rightarrow> 'w runner \<Rightarrow> string \<Rightarrow> string \<Rightarrow> 'w world \<Rightarrow> (exn + pyval) \<times> 'w world" where
  "run_with_retries self run task img w =
     (case retries self of
        None \<Rightarrow> (Inl range_None_error, w)
      | Some n \<Rightarrow> run_with_retries_loop run task img (range_len n) w)"

text \<open>
  \<^verbatim>\<open>
  def run_batch_with_retries(self, tasks_images):
      for i in range(self.retries):
          try:
              return self.run_batch(tasks_images)
          except Exception as error:
              print(f"Error with the request {error}")
              continue
  \<close>
  The result \<open>Inr None\<close> is Python's \<^verbatim>\<open>None\<close>, \<open>Inr (Some results)\<close> is a list. Every
  call of \<^verbatim>\<open>run_batch\<close> has an execution order of its own: \<open>orders\<close> lists them, the
  first for the first whole-batch attempt, and an attempt beyond the end of the list
  runs in the order of submission.
\<close>

definition next_order :: "nat list list \<Rightarrow> nat list" where
  "next_order orders = (case orders of [] \<Rightarrow> [] | order # later \<Rightarrow> order)"

fun run_batch_with_retries_loop :: "BaseMultiModalModel \<Rightarrow> 'w runner \<Rightarrow> nat list list \<Rightarrow> (string \<times> string) list \<Rightarrow> nat \<Rightarrow> 'w world \<Rightarrow> (exn + pyval list option) \<times> 'w world" where
  "run_batch_with_retries_loop self run orders tasks_images 0 w = (Inr None, w)"
| "run_batch_with_retries_loop self run orders tasks_images (Suc n) w =
     (case run_batch self run (next_order orders) tasks_images w of
        (Inr results, w1) \<Rightarrow> (Inr (Some results), w1)
      | (Inl error, w1) \<Rightarrow>
          if isinstance_Exception error
          then run_batch_with_retries_loop self run (tl orders) tasks_images n
                 (print_line (error_line error) w1)
          else (Inl error, w1))"

definition run_batch_with_retries :: "BaseMultiModalModel \<Rightarrow> 'w runner \<Rightarrow> nat list list \<Rightarrow> (string \<times> string) list \<Rightarrow> 'w world \<Rightarrow> (exn + pyval list option) \<times> 'w world" where
  "run_batch_with_retries self run orders tasks_images w =
     (case retries self of
        None \<Rightarrow> (Inl range_None_error, w)
      | Some n \<Rightarrow> run_batch_with_retries_loop self run orders tasks_images (range_len n) w)"

subsection \<open>What the collaborator does on consecutive attempts\<close>










subsection \<open>Collaborators for concrete runs\<close>

text \<open>
  Implementations of \<^verbatim>\<open>run\<close> over a counter of calls: \<open>echo\<close> always returns,
  \<open>stamping\<close> returns the task followed by one star for every call made before,
  \<open>stopping\<close> raises \<^verbatim>\<open>StopIteration\<close>,
  \<open>flaky k\<close> raises an \<^verbatim>\<open>Exception\<close> on its first \<open>k\<close> calls and returns from then on,
  \<open>exiting k\<close> raises \<^verbatim>\<open>SystemExit\<close> on its first \<open>k\<close> calls and returns from then on,
  \<open>breaking k\<close> returns on its first \<open>k\<close> calls and raises an \<^verbatim>\<open>Exception\<close> from then on.
\<close>

definition echo :: "nat runner" where
  "echo task img s = (Inr (PyStr (task @ img)), Suc s)"

definition stamping :: "nat runner" where
  "stamping task img s = (Inr (PyStr (task @ replicate s (CHR ''*''))), Suc s)"

definition stopping :: "nat runner" where
  "stopping task img s = (Inl (StopIteration []), Suc s)"



definition breaking :: "nat \<Rightarrow> nat runner" where
  "breaking k task img s =
     (if s < k then (Inr (PyStr (task @ img)), Suc s) else (Inl (Exception (''broken '' @ task)), Suc s))"

definition fresh :: "nat world" where
  "fresh = \<lparr>env = 0, cpu_count = 1, trace = []\<rparr>"

section \<open>Chat history\<close>

text \<open>
  \<^verbatim>\<open>list(set(self.chat_history))\<close>: the order in which a Python set is iterated is
  that of its hash table and is no part of the language; it is the parameter
  \<open>list_of\<close>, a function from a set to a list of its elements.
\<close>

definition clear_chat_history :: "BaseMultiModalModel \<Rightarrow> BaseMultiModalModel" where
  "clear_chat_history self = self\<lparr>chat_history := []\<rparr>"

definition get_chat_history :: "BaseMultiModalModel \<Rightarrow> string list" where
  "get_chat_history self = chat_history self"

definition unique_chat_history :: "(string set \<Rightarrow> string list) \<Rightarrow> BaseMultiModalModel \<Rightarrow> string list" where
  "unique_chat_history list_of self = list_of (set (chat_history self))"

definition get_unique_chat_history :: "(string set \<Rightarrow> string list) \<Rightarrow> BaseMultiModalModel \<Rightarrow> string list" where
  "get_unique_chat_history list_of self = list_of (set (chat_history self))"

definition get_chat_history_length :: "BaseMultiModalModel \<Rightarrow> nat" where
  "get_chat_history_length self = length (chat_history self)"

definition get_unique_chat_history_length :: "(string set \<Rightarrow> string list) \<Rightarrow> BaseMultiModalModel \<Rightarrow> nat" where
  "get_unique_chat_history_length list_of self = length (list_of (set (chat_history self)))"

section \<open>The thread pool, as far as concurrency goes\<close>

text \<open>
  A pool of \<^verbatim>\<open>concurrent.futures\<close>: \<open>workers\<close> threads, the submitted calls that wait
  in its queue, those that a thread is running, and those that have ended. Calls are
  named by their index in the batch. A thread takes the call at the head of the queue
  when fewer than \<open>workers\<close> calls are running; a running call may end at any time.
\<close>

record pool =
  workers :: nat
  queued :: "nat list"
  running :: "nat list"
  finished :: "nat list"

datatype action = Start | Finish nat

fun pool_step :: "action \<Rightarrow> pool \<Rightarrow> pool option" where
  "pool_step Start p =
     (case queued p of
        [] \<Rightarrow> None
      | i # q \<Rightarrow>
          if length (running p) < workers p
          then Some (p\<lparr>queued := q, running := running p @ [i]\<rparr>)
          else None)"
| "pool_step (Finish i) p =
     (if i \<in> set (running p)
      then Some (p\<lparr>running := removeAll i (running p), finished := finished p @ [i]\<rparr>)
      else None)"

fun schedule :: "action list \<Rightarrow> pool \<Rightarrow> pool option" where
  "schedule [] p = Some p"
| "schedule (a # as) p = (case pool_step a p of None \<Rightarrow> None | Some p' \<Rightarrow> schedule as p')"

definition submitted :: "nat \<Rightarrow> nat \<Rightarrow> pool" where
  "submitted k n = \<lparr>workers = k, queued = [0..<n], running = [], finished = []\<rparr>"

text \<open>
  The pool of \<^verbatim>\<open>run_many\<close> is \<^verbatim>\<open>ThreadPoolExecutor(max_workers=self.max_workers)\<close>,
  that of \<^verbatim>\<open>run_batch\<close> is \<^verbatim>\<open>concurrent.futures.ThreadPoolExecutor()\<close>.
\<close>

definition run_many_pool :: "BaseMultiModalModel \<Rightarrow> 'w world \<Rightarrow> nat \<Rightarrow> exn + pool" where
  "run_many_pool self w n =
     (case ThreadPoolExecutor (cpu_count w) (max_workers self) of
        Inl e \<Rightarrow> Inl e
      | Inr k \<Rightarrow> Inr (submitted k n))"

definition run_batch_pool :: "BaseMultiModalModel \<Rightarrow> 'w world \<Rightarrow> nat \<Rightarrow> exn + pool" where
  "run_batch_pool self w n =
     (case ThreadPoolExecutor (cpu_count w) None of
        Inl e \<Rightarrow> Inl e
      | Inr k \<Rightarrow> Inr (submitted k n))"

section \<open>Lemmas on calls, schedules and futures\<close>


lemma call_run_snd:
  "snd (call_run run task img w) =
     w\<lparr>env := snd (run task img (env w)), trace := trace w @ [RunCall task img]\<rparr>"
  by (simp add: call_run_def case_prod_unfold)


lemma schedule_of_set: "set (schedule_of n order) = {0..<n}"
  by (auto simp: schedule_of_def)


lemma schedule_of_Nil: "schedule_of n [] = [0..<n]"
  by (simp add: schedule_of_def)

lemma position_less: "i \<in> set xs \<Longrightarrow> position i xs < length xs"
  by (induction xs) auto

lemma nth_position: "i \<in> set xs \<Longrightarrow> xs ! position i xs = i"
  by (induction xs) auto

lemma run_each_Cons_fst:
  "fst (run_each run ((task, img) # rest) w) =
     fst (call_run run task img w) # fst (run_each run rest (snd (call_run run task img w)))"
  by (simp add: case_prod_unfold)

lemma run_each_Cons_snd:
  "snd (run_each run ((task, img) # rest) w) =
     snd (run_each run rest (snd (call_run run task img w)))"
  by (simp add: case_prod_unfold)

lemma run_each_length: "length (fst (run_each run ps w)) = length ps"
proof (induction ps arbitrary: w)
  case Nil
  then show ?case by simp
next
  case (Cons p ps)
  obtain task img where "p = (task, img)" by (cases p)
  with Cons.IH show ?case by (simp only: run_each_Cons_fst) simp
qed

lemma run_each_nth:
  "p < length ps \<Longrightarrow>
   fst (run_each run ps w) ! p =
     fst (call_run run (fst (ps ! p)) (snd (ps ! p)) (snd (run_each run (take p ps) w)))"
proof (induction ps arbitrary: w p)
  case Nil
  then show ?case by simp
next
  case (Cons q ps)
  obtain task img where q: "q = (task, img)" by (cases q)
  show ?case
  proof (cases p)
    case 0
    then show ?thesis unfolding q run_each_Cons_fst by simp
  next
    case (Suc k)
    with Cons.prems have "k < length ps" by simp
    from Cons.IH[OF this, of "snd (call_run run task img w)"] show ?thesis
      unfolding q run_each_Cons_fst Suc by (simp add: case_prod_unfold)
  qed
qed

lemma run_each_env: "env (snd (run_each run ps w)) = env_after_calls run ps (env w)"
proof (induction ps arbitrary: w)
  case Nil
  then show ?case by simp
next
  case (Cons p ps)
  obtain task img where p: "p = (task, img)" by (cases p)
  show ?case unfolding p run_each_Cons_snd Cons.IH by (simp add: call_run_snd)
qed


lemma submit_all_fst:
  "fst (submit_all run order pairs w) =
     map (\<lambda>i. fst (run_each run (map (\<lambda>i. pairs ! i) (schedule_of (length pairs) order)) w)
                 ! position i (schedule_of (length pairs) order)) [0..<length pairs]"
  by (simp add: submit_all_def Let_def case_prod_unfold)


lemma submit_all_length: "length (fst (submit_all run order pairs w)) = length pairs"
  by (simp add: submit_all_fst)

lemma submit_all_nth:
  assumes "i < length pairs"
  shows "fst (submit_all run order pairs w) ! i =
           fst (call_run run (fst (pairs ! i)) (snd (pairs ! i))
                  (snd (run_each run
                          (map (\<lambda>j. pairs ! j)
                             (take (position i (schedule_of (length pairs) order))
                                (schedule_of (length pairs) order))) w)))"
proof -
  let ?sched = "schedule_of (length pairs) order"
  let ?ps = "map (\<lambda>i. pairs ! i) ?sched"
  let ?p = "position i ?sched"
  from assms have mem: "i \<in> set ?sched" by (simp add: schedule_of_set)
  then have p: "?p < length ?sched" and at: "?sched ! ?p = i"
    by (simp_all add: position_less nth_position)
  from p have "?p < length ?ps" by simp
  then have "fst (run_each run ?ps w) ! ?p =
     fst (call_run run (fst (?ps ! ?p)) (snd (?ps ! ?p)) (snd (run_each run (take ?p ?ps) w)))"
    by (rule run_each_nth)
  also have "?ps ! ?p = pairs ! i" using p at by simp
  also have "take ?p ?ps = map (\<lambda>j. pairs ! j) (take ?p ?sched)" by (simp add: take_map)
  finally show ?thesis using assms by (simp add: submit_all_fst)
qed


lemma future_results_all_returned:
  "\<forall>r \<in> set fs. \<not> isl r \<Longrightarrow> \<exists>vs. future_results fs = Inr vs \<and> fs = map Inr vs"
proof (induction fs)
  case Nil
  then show ?case by simp
next
  case (Cons f fs)
  then obtain vs where "future_results fs = Inr vs" "fs = map Inr vs" by auto
  moreover from Cons.prems obtain v where "f = Inr v" by (cases f) auto
  ultimately show ?case by simp
qed

lemma future_results_map_Inr: "future_results (map Inr vs) = Inr vs"
  by (induction vs) simp_all

lemma future_results_first_raise:
  "i < length fs \<Longrightarrow> fs ! i = Inl e \<Longrightarrow> \<forall>j<i. \<not> isl (fs ! j) \<Longrightarrow> future_results fs = Inl e"
proof (induction fs arbitrary: i)
  case Nil
  then show ?case by simp
next
  case (Cons f fs)
  show ?case
  proof (cases i)
    case 0
    with Cons.prems show ?thesis by simp
  next
    case (Suc k)
    from Cons.prems(3) Suc have "\<not> isl ((f # fs) ! 0)" by blast
    then obtain v where f: "f = Inr v" by (cases f) auto
    have "\<forall>j<k. \<not> isl (fs ! j)"
    proof (intro allI impI)
      fix j assume "j < k"
      then have "Suc j < i" using Suc by simp
      with Cons.prems(3) have "\<not> isl ((f # fs) ! Suc j)" by blast
      then show "\<not> isl (fs ! j)" by simp
    qed
    with Cons.IH[of k] Cons.prems Suc have "future_results fs = Inl e" by simp
    with f show ?thesis by simp
  qed
qed

lemma run_batch_unfold:
  "run_batch self run order pairs w =
     (future_results (fst (submit_all run order pairs (batch_start pairs w))),
      snd (submit_all run order pairs (batch_start pairs w)))"
  by (simp add: run_batch_def ThreadPoolExecutor_def Let_def case_prod_unfold)

lemma batch_start_env: "env (batch_start pairs w) = env w"
  by (simp add: batch_start_def)

section \<open>run_batch: length, alignment, purity, fail-fast\<close>

text \<open>
  C1. For every list of pairs of length \<open>N\<close>, \<open>N = 0\<close> included, and every order in which
  the pool runs the calls: if no invocation of \<^verbatim>\<open>run\<close> raises, \<^verbatim>\<open>run_batch\<close> returns a
  list of exactly \<open>N\<close> results, and the \<open>i\<close>-th result is what \<^verbatim>\<open>run\<close> returned on the
  \<open>i\<close>-th pair; on the empty list it returns the empty list and does not raise.
\<close>

theorem run_batch_length_aligned:
  assumes "\<forall>i < length pairs. \<not> isl (outcome run pairs order (env w) i)"
  shows "(\<exists>rs. fst (run_batch self run order pairs w) = Inr rs \<and> length rs = length pairs \<and>
            (\<forall>i < length pairs. outcome run pairs order (env w) i = Inr (rs ! i)))
         \<and> fst (run_batch self run order [] w) = Inr []"
proof -
  let ?fs = "fst (submit_all run order pairs (batch_start pairs w))"
  have len: "length ?fs = length pairs" by (rule submit_all_length)
  have nth: "?fs ! i = outcome run pairs order (env w) i" if "i < length pairs" for i
  proof -
    let ?earlier = "map (\<lambda>j. pairs ! j)
      (take (position i (schedule_of (length pairs) order)) (schedule_of (length pairs) order))"
    let ?before = "snd (run_each run ?earlier (batch_start pairs w))"
    have "?fs ! i = fst (call_run run (fst (pairs ! i)) (snd (pairs ! i)) ?before)"
      using that by (rule submit_all_nth)
    also have "\<dots> = fst (run (fst (pairs ! i)) (snd (pairs ! i)) (env ?before))"
      by (simp add: call_run_def case_prod_unfold)
    also have "env ?before = env_after_calls run ?earlier (env w)"
      by (simp add: run_each_env batch_start_env)
    finally show ?thesis by (simp add: outcome_def Let_def)
  qed
  have "\<forall>r \<in> set ?fs. \<not> isl r"
  proof
    fix r assume "r \<in> set ?fs"
    then obtain i where i: "i < length ?fs" "?fs ! i = r" by (auto simp: in_set_conv_nth)
    with len assms nth show "\<not> isl r" by metis
  qed
  then obtain vs where vs: "future_results ?fs = Inr vs" "?fs = map Inr vs"
    using future_results_all_returned by blast
  from vs(2) len have l: "length vs = length pairs" by (metis length_map)
  have "\<forall>i < length pairs. outcome run pairs order (env w) i = Inr (vs ! i)"
  proof (intro allI impI)
    fix i assume i: "i < length pairs"
    from vs(2) i l have "?fs ! i = Inr (vs ! i)" by (metis nth_map)
    with nth[OF i] show "outcome run pairs order (env w) i = Inr (vs ! i)" by simp
  qed
  moreover have "fst (run_batch self run order [] w) = Inr []"
    by (simp add: run_batch_unfold submit_all_fst)
  ultimately show ?thesis using vs(1) l by (simp add: run_batch_unfold)
qed

theorem run_batch_length_aligned_witness:
  "outcome stamping [(''a'', ''x''), (''b'', ''y'')] [1, 0] (env fresh) 0 = Inr (PyStr ''a*'')
   \<and> outcome stamping [(''a'', ''x''), (''b'', ''y'')] [1, 0] (env fresh) 1 = Inr (PyStr ''b'')
   \<and> fst (run_batch init_default stamping [1, 0] [(''a'', ''x''), (''b'', ''y'')] fresh)
       = Inr [PyStr ''a*'', PyStr ''b'']
   \<and> fst (run_batch init_default stamping [] [(''a'', ''x''), (''b'', ''y'')] fresh)
       = Inr [PyStr ''a'', PyStr ''b*'']
   \<and> fst (run_batch init_default stamping [1, 0] [] fresh) = Inr []"
proof -
  let ?ps = "[(''a'', ''x''), (''b'', ''y'')]"
  have o0: "outcome stamping ?ps [1, 0] (env fresh) 0 = Inr (PyStr ''a*'')" by code_simp
  have o1: "outcome stamping ?ps [1, 0] (env fresh) 1 = Inr (PyStr ''b'')" by code_simp
  have s: "fst (run_batch init_default stamping [] ?ps fresh) = Inr [PyStr ''a'', PyStr ''b*'']"
    by code_simp
  have h: "\<forall>i < length ?ps. \<not> isl (outcome stamping ?ps [1, 0] (env fresh) i)"
    using o0 o1 by (simp add: All_less_Suc)
  from run_batch_length_aligned[OF h, of init_default]
  obtain rs where rs: "fst (run_batch init_default stamping [1, 0] ?ps fresh) = Inr rs"
    "length rs = length ?ps"
    "\<forall>i < length ?ps. outcome stamping ?ps [1, 0] (env fresh) i = Inr (rs ! i)"
    and e: "fst (run_batch init_default stamping [1, 0] [] fresh) = Inr []"
    by blast
  from rs(3) o0 o1 have "rs ! 0 = PyStr ''a*''" "rs ! 1 = PyStr ''b''"
    by (simp_all add: All_less_Suc)
  with rs(2) have "rs = [PyStr ''a*'', PyStr ''b'']"
    by (auto simp: list_eq_iff_nth_eq less_Suc_eq numeral_2_eq_2)
  with rs(1) e o0 o1 s show ?thesis by simp
qed

text \<open>
  C2. If \<^verbatim>\<open>run\<close> is a pure deterministic function that never raises (it returns
  \<open>f task img\<close> and leaves the world as it was), then for every list of pairs, every
  order of execution and every index \<open>i\<close> the \<open>i\<close>-th result of \<^verbatim>\<open>run_batch\<close> is
  \<^verbatim>\<open>run\<close> of the \<open>i\<close>-th pair.
\<close>

theorem run_batch_pure:
  assumes "\<forall>task img s. run task img s = (Inr (f task img), s)"
  shows "\<exists>rs. fst (run_batch self run order pairs w) = Inr rs \<and> length rs = length pairs \<and>
           (\<forall>i < length pairs. rs ! i = f (fst (pairs ! i)) (snd (pairs ! i)))"
proof -
  let ?rs = "map (\<lambda>(task, img). f task img) pairs"
  let ?fs = "fst (submit_all run order pairs (batch_start pairs w))"
  have "?fs = map Inr ?rs"
  proof (rule nth_equalityI)
    show "length ?fs = length (map Inr ?rs)" by (simp add: submit_all_length)
  next
    fix i assume "i < length ?fs"
    then have i: "i < length pairs" by (simp add: submit_all_length)
    let ?before = "snd (run_each run (map (\<lambda>j. pairs ! j)
      (take (position i (schedule_of (length pairs) order)) (schedule_of (length pairs) order)))
      (batch_start pairs w))"
    have "?fs ! i = fst (call_run run (fst (pairs ! i)) (snd (pairs ! i)) ?before)"
      using i by (rule submit_all_nth)
    also have "\<dots> = fst (run (fst (pairs ! i)) (snd (pairs ! i)) (env ?before))"
      by (simp add: call_run_def case_prod_unfold)
    also have "\<dots> = Inr (f (fst (pairs ! i)) (snd (pairs ! i)))"
      using assms by simp
    finally show "?fs ! i = map Inr ?rs ! i" using i by (simp add: case_prod_unfold)
  qed
  then have "future_results ?fs = Inr ?rs"
    by (simp only: future_results_map_Inr)
  then have "fst (run_batch self run order pairs w) = Inr ?rs"
    by (simp add: run_batch_unfold)
  moreover have "\<forall>i < length pairs. ?rs ! i = f (fst (pairs ! i)) (snd (pairs ! i))"
    by (simp add: case_prod_unfold)
  ultimately show ?thesis by simp
qed

theorem run_batch_pure_witness:
  "(\<forall>task img s. (\<lambda>task img (s::nat). (Inr (PyStr (img @ task)), s)) task img s
        = (Inr ((\<lambda>task img. PyStr (img @ task)) task img), s))
   \<and> fst (run_batch init_default (\<lambda>task img (s::nat). (Inr (PyStr (img @ task)), s)) [1, 0]
            [(''a'', ''x''), (''b'', ''y'')] fresh)
       = Inr [PyStr ''xa'', PyStr ''yb'']"
proof -
  let ?ps = "[(''a'', ''x''), (''b'', ''y'')]"
  let ?f = "\<lambda>task img. PyStr (img @ task)"
  let ?run = "\<lambda>task img (s::nat). (Inr (PyStr (img @ task)), s)"
  have h: "\<forall>task img s. ?run task img s = (Inr (?f task img), s)" by simp
  from run_batch_pure[OF h, of init_default "[1, 0]" ?ps fresh]
  obtain rs where rs: "fst (run_batch init_default ?run [1, 0] ?ps fresh) = Inr rs" "length rs = 2"
    "rs ! 0 = PyStr ''xa''" "rs ! 1 = PyStr ''yb''"
    by (auto simp: All_less_Suc)
  from rs(2,3,4) have "rs = [PyStr ''xa'', PyStr ''yb'']"
    by (auto simp: list_eq_iff_nth_eq less_Suc_eq numeral_2_eq_2)
  with rs(1) h show ?thesis by simp
qed

text \<open>
  C6. If \<^verbatim>\<open>run\<close> raises for some pair, then in every order of execution \<^verbatim>\<open>run_batch\<close>
  returns no list, partial or other: it raises the exception of the smallest index whose
  invocation raised, whatever its class. Nothing is caught inside \<^verbatim>\<open>run_batch\<close>. Which
  index that is depends on the order when \<^verbatim>\<open>run\<close> has a state: the witness runs the
  same three pairs in two orders.
\<close>

theorem run_batch_fail_fast:
  assumes "i < length pairs"
    and "outcome run pairs order (env w) i = Inl e"
    and "\<forall>j<i. \<not> isl (outcome run pairs order (env w) j)"
  shows "fst (run_batch self run order pairs w) = Inl e"
proof -
  let ?fs = "fst (submit_all run order pairs (batch_start pairs w))"
  have len: "length ?fs = length pairs" by (rule submit_all_length)
  have nth: "?fs ! j = outcome run pairs order (env w) j" if "j < length pairs" for j
  proof -
    let ?earlier = "map (\<lambda>j. pairs ! j)
      (take (position j (schedule_of (length pairs) order)) (schedule_of (length pairs) order))"
    let ?before = "snd (run_each run ?earlier (batch_start pairs w))"
    have "?fs ! j = fst (call_run run (fst (pairs ! j)) (snd (pairs ! j)) ?before)"
      using that by (rule submit_all_nth)
    also have "\<dots> = fst (run (fst (pairs ! j)) (snd (pairs ! j)) (env ?before))"
      by (simp add: call_run_def case_prod_unfold)
    also have "env ?before = env_after_calls run ?earlier (env w)"
      by (simp add: run_each_env batch_start_env)
    finally show ?thesis by (simp add: outcome_def Let_def)
  qed
  have "?fs ! i = Inl e" using assms(1,2) by (simp add: nth)
  moreover have "\<forall>j<i. \<not> isl (?fs ! j)"
  proof (intro allI impI)
    fix j assume "j < i"
    with assms(1,3) show "\<not> isl (?fs ! j)" by (simp add: nth)
  qed
  ultimately have "future_results ?fs = Inl e"
    using assms(1) len by (simp add: future_results_first_raise)
  then show ?thesis by (simp add: run_batch_unfold)
qed

theorem run_batch_fail_fast_witness:
  "(0::nat) < length [(''a'', ''x''), (''b'', ''y''), (''c'', ''z'')]
   \<and> outcome (breaking 1) [(''a'', ''x''), (''b'', ''y''), (''c'', ''z'')] [1, 2, 0] (env fresh) 0
       = Inl (Exception ''broken a'')
   \<and> outcome (breaking 1) [(''a'', ''x''), (''b'', ''y''), (''c'', ''z'')] [1, 2, 0] (env fresh) 1
       = Inr (PyStr ''by'')
   \<and> outcome (breaking 1) [(''a'', ''x''), (''b'', ''y''), (''c'', ''z'')] [1, 2, 0] (env fresh) 2
       = Inl (Exception ''broken c'')
   \<and> fst (run_batch init_default (breaking 1) [1, 2, 0]
            [(''a'', ''x''), (''b'', ''y''), (''c'', ''z'')] fresh)
       = Inl (Exception ''broken a'')
   \<and> (1::nat) < length [(''a'', ''x''), (''b'', ''y''), (''c'', ''z'')]
   \<and> outcome (breaking 1) [(''a'', ''x''), (''b'', ''y''), (''c'', ''z'')] [] (env fresh) 0
       = Inr (PyStr ''ax'')
   \<and> outcome (breaking 1) [(''a'', ''x''), (''b'', ''y''), (''c'', ''z'')] [] (env fresh) 1
       = Inl (Exception ''broken b'')
   \<and> fst (run_batch init_default (breaking 1) []
            [(''a'', ''x''), (''b'', ''y''), (''c'', ''z'')] fresh)
       = Inl (Exception ''broken b'')"
proof -
  let ?ps = "[(''a'', ''x''), (''b'', ''y''), (''c'', ''z'')]"
  have a: "(0::nat) < length ?ps" by simp
  have b: "outcome (breaking 1) ?ps [1, 2, 0] (env fresh) 0 = Inl (Exception ''broken a'')"
    by code_simp
  have c: "\<forall>j<0. \<not> isl (outcome (breaking 1) ?ps [1, 2, 0] (env fresh) j)" by simp
  have o1: "outcome (breaking 1) ?ps [1, 2, 0] (env fresh) 1 = Inr (PyStr ''by'')" by code_simp
  have o2: "outcome (breaking 1) ?ps [1, 2, 0] (env fresh) 2 = Inl (Exception ''broken c'')"
    by code_simp
  have a': "(1::nat) < length ?ps" by simp
  have s0: "outcome (breaking 1) ?ps [] (env fresh) 0 = Inr (PyStr ''ax'')" by code_simp
  have b': "outcome (breaking 1) ?ps [] (env fresh) 1 = Inl (Exception ''broken b'')" by code_simp
  from s0 have c': "\<forall>j<1. \<not> isl (outcome (breaking 1) ?ps [] (env fresh) j)" by simp
  from run_batch_fail_fast[OF a b c, of init_default] run_batch_fail_fast[OF a' b' c', of init_default]
    a b o1 o2 a' s0 b'
  show ?thesis by blast
qed

section \<open>Lemmas on the retry loops\<close>































section \<open>run_with_retries\<close>







text \<open>
  C10. If the retry budget is \<open>0\<close> or negative, then for every task and image
  \<^verbatim>\<open>run_with_retries\<close> returns \<^verbatim>\<open>None\<close> and \<^verbatim>\<open>run_batch_with_retries\<close> returns
  \<^verbatim>\<open>None\<close>, and the world is as before: its trace has no new call of \<^verbatim>\<open>run\<close> or of
  \<^verbatim>\<open>run_batch\<close>, the loop body has run zero times.
\<close>

theorem zero_budget_no_attempt:
  assumes "retries self = Some n" and "n \<le> 0"
  shows "run_with_retries self run task img w = (Inr PyNone, w)
         \<and> run_batch_with_retries self run orders pairs w = (Inr None, w)"
  using assms by (simp add: run_with_retries_def run_batch_with_retries_def range_len_def)

theorem zero_budget_no_attempt_witness:
  "retries (init (Some 10) (Some 0)) = Some 0 \<and> (0::int) \<le> 0
   \<and> retries (init (Some 10) (Some (- 2))) = Some (- 2) \<and> (- 2::int) \<le> 0
   \<and> run_with_retries (init (Some 10) (Some 0)) echo ''t'' ''i'' fresh = (Inr PyNone, fresh)
   \<and> run_batch_with_retries (init (Some 10) (Some 0)) echo [] [(''a'', ''x'')] fresh = (Inr None, fresh)
   \<and> run_with_retries (init (Some 10) (Some (- 2))) echo ''t'' ''i'' fresh = (Inr PyNone, fresh)
   \<and> run_batch_with_retries (init (Some 10) (Some (- 2))) echo [] [(''a'', ''x'')] fresh = (Inr None, fresh)"
proof -
  have a: "retries (init (Some 10) (Some 0)) = Some 0" by (simp add: init_def)
  have b: "retries (init (Some 10) (Some (- 2))) = Some (- 2)" by (simp add: init_def)
  from zero_budget_no_attempt[OF a, of echo "''t''" "''i''" fresh "[]" "[(''a'', ''x'')]"]
    zero_budget_no_attempt[OF b, of echo "''t''" "''i''" fresh "[]" "[(''a'', ''x'')]"] a b
  show ?thesis by simp
qed

section \<open>run_batch_with_retries\<close>




section \<open>Lemmas on run_many and on pools\<close>




lemma pool_step_bound:
  assumes "pool_step a p = Some p'" and "length (running p) \<le> workers p"
  shows "length (running p') \<le> workers p' \<and> workers p' = workers p"
proof (cases a)
  case Start
  with assms show ?thesis by (auto split: list.splits if_splits)
next
  case (Finish i)
  have "length (removeAll i (running p)) \<le> length (running p)"
    by (simp add: removeAll_filter_not_eq)
  with assms(2) have "length (removeAll i (running p)) \<le> workers p" by linarith
  with Finish assms(1) show ?thesis by (auto split: if_splits)
qed

lemma schedule_bound:
  "schedule as p = Some p' \<Longrightarrow> length (running p) \<le> workers p \<Longrightarrow>
   length (running p') \<le> workers p' \<and> workers p' = workers p"
proof (induction as arbitrary: p)
  case Nil
  then show ?case by simp
next
  case (Cons a as)
  from Cons.prems(1) obtain q where q: "pool_step a p = Some q" "schedule as q = Some p'"
    by (auto split: option.splits)
  from pool_step_bound[OF q(1) Cons.prems(2)] Cons.IH[OF q(2)] show ?case by simp
qed

lemma run_many_pool_bounded:
  assumes "max_workers self = Some n" and "run_many_pool self w jobs = Inr p0"
    and "schedule as p0 = Some p"
  shows "int (length (running p)) \<le> n"
proof -
  from assms(1,2) have n: "0 < n" and p0: "p0 = submitted (nat n) jobs"
    by (auto simp: run_many_pool_def ThreadPoolExecutor_def split: if_splits)
  then have "length (running p0) \<le> workers p0" "workers p0 = nat n" by (simp_all add: submitted_def)
  with schedule_bound[OF assms(3)] have "length (running p) \<le> nat n" by simp
  with n show ?thesis by simp
qed

lemma default_max_workers_ge_5: "5 \<le> default_max_workers cpus"
  by (simp add: default_max_workers_def)

section \<open>run_many: no check of the lengths\<close>




text \<open>
  The results of \<^verbatim>\<open>run_many\<close> come out of a generator: a \<^verbatim>\<open>StopIteration\<close> of \<^verbatim>\<open>run\<close>
  reaches the caller of \<^verbatim>\<open>run_many\<close> as a \<^verbatim>\<open>RuntimeError\<close>, and that of \<^verbatim>\<open>run_batch\<close>
  as it is.
\<close>

lemma run_many_StopIteration:
  "fst (run_many init_default stopping [] [''a''] [''x''] fresh)
     = Inl (RuntimeError ''generator raised StopIteration'')
   \<and> fst (run_batch init_default stopping [] [(''a'', ''x'')] fresh) = Inl (StopIteration [])"
  by code_simp

section \<open>Pool sizes\<close>

text \<open>
  C8. The claim is that no batch method runs more than \<^verbatim>\<open>max_workers\<close> invocations at
  a time. The pool of \<^verbatim>\<open>run_many\<close> is bounded so (lemma \<open>run_many_pool_bounded\<close>). The
  pool of \<^verbatim>\<open>run_batch\<close> is built without \<^verbatim>\<open>max_workers\<close>: with \<^verbatim>\<open>max_workers = 2\<close> and
  5 submitted invocations it has at least 5 workers on every machine, and the schedule
  that starts all five reaches a state where the five run at once.
\<close>

theorem run_batch_pool_exceeds_max_workers:
  "max_workers (init (Some 2) (Some 3)) = Some 2
   \<and> run_batch_pool (init (Some 2) (Some 3)) w 5 = Inr (submitted (default_max_workers (cpu_count w)) 5)
   \<and> (\<exists>p. schedule [Start, Start, Start, Start, Start] (submitted (default_max_workers (cpu_count w)) 5) = Some p
          \<and> running p = [0, 1, 2, 3, 4])"
proof -
  have k: "5 \<le> default_max_workers (cpu_count w)" by (rule default_max_workers_ge_5)
  have u: "[0..<5] = [0, 1, 2, 3, 4]" by (simp add: upt_rec)
  have "schedule [Start, Start, Start, Start, Start] (submitted (default_max_workers (cpu_count w)) 5)
          = Some \<lparr>workers = default_max_workers (cpu_count w), queued = [], running = [0, 1, 2, 3, 4], finished = []\<rparr>"
    using k by (simp add: submitted_def u)
  then show ?thesis
    by (simp add: run_batch_pool_def ThreadPoolExecutor_def init_def)
qed

theorem run_batch_pool_exceeds_max_workers_witness:
  "max_workers (init (Some 2) (Some 3)) = Some 2
   \<and> run_batch_pool (init (Some 2) (Some 3)) fresh 5 = Inr (submitted 5 5)
   \<and> schedule [Start, Start, Start, Start, Start] (submitted 5 5)
       = Some \<lparr>workers = 5, queued = [], running = [0, 1, 2, 3, 4], finished = []\<rparr>
   \<and> run_many_pool (init (Some 2) (Some 3)) fresh 5 = Inr (submitted 2 5)
   \<and> schedule [Start, Start, Start] (submitted 2 5) = None"
proof -
  have d: "default_max_workers (cpu_count fresh) = 5" by (simp add: default_max_workers_def fresh_def)
  have u: "[0..<5] = [0, 1, 2, 3, 4]" by (simp add: upt_rec)
  have s: "schedule [Start, Start, Start, Start, Start] (submitted 5 5)
       = Some \<lparr>workers = 5, queued = [], running = [0, 1, 2, 3, 4], finished = []\<rparr>"
    by (simp add: submitted_def u)
  have m: "run_many_pool (init (Some 2) (Some 3)) fresh 5 = Inr (submitted 2 5)"
    by (simp add: run_many_pool_def ThreadPoolExecutor_def init_def)
  have n: "schedule [Start, Start, Start] (submitted 2 5) = None"
    by (simp add: submitted_def u)
  from run_batch_pool_exceeds_max_workers[of fresh] d s m n show ?thesis by simp
qed

section \<open>Chat history: the unique view\<close>

text \<open>
  C9. For every chat history, \<^verbatim>\<open>get_unique_chat_history\<close> and \<^verbatim>\<open>unique_chat_history\<close>
  return a list that holds exactly the elements of the history, each once, in the order
  that \<open>list_of\<close> gives (any function that lists the elements of a finite set without
  repetition); \<^verbatim>\<open>get_unique_chat_history_length\<close> is the number of distinct elements of
  the history, hence at most \<^verbatim>\<open>get_chat_history_length\<close>.
\<close>

theorem unique_chat_history_distinct:
  assumes "\<forall>S. finite S \<longrightarrow> set (list_of S) = S \<and> distinct (list_of S)"
  shows "set (get_unique_chat_history list_of self) = set (chat_history self)
       \<and> distinct (get_unique_chat_history list_of self)
       \<and> set (unique_chat_history list_of self) = set (chat_history self)
       \<and> distinct (unique_chat_history list_of self)
       \<and> get_unique_chat_history_length list_of self = card (set (chat_history self))
       \<and> get_unique_chat_history_length list_of self \<le> get_chat_history_length self"
proof -
  let ?S = "set (chat_history self)"
  have f: "finite ?S" by simp
  with assms have s: "set (list_of ?S) = ?S" and d: "distinct (list_of ?S)" by blast+
  from d have "length (list_of ?S) = card (set (list_of ?S))" by (simp add: distinct_card)
  with s have l: "length (list_of ?S) = card ?S" by simp
  have "card ?S \<le> length (chat_history self)" by (rule card_length)
  with s d l show ?thesis
    by (simp add: get_unique_chat_history_def unique_chat_history_def
        get_unique_chat_history_length_def get_chat_history_length_def)
qed

theorem unique_chat_history_distinct_witness:
  "get_unique_chat_history sorted_list_of_set (init_default\<lparr>chat_history := [''yo'', ''hi'', ''yo'']\<rparr>) = [''hi'', ''yo'']
   \<and> unique_chat_history sorted_list_of_set (init_default\<lparr>chat_history := [''yo'', ''hi'', ''yo'']\<rparr>) = [''hi'', ''yo'']
   \<and> get_unique_chat_history_length sorted_list_of_set (init_default\<lparr>chat_history := [''yo'', ''hi'', ''yo'']\<rparr>) = 2
   \<and> get_chat_history_length (init_default\<lparr>chat_history := [''yo'', ''hi'', ''yo'']\<rparr>) = 3
   \<and> get_unique_chat_history_length sorted_list_of_set (init_default\<lparr>chat_history := [''yo'', ''hi'', ''yo'']\<rparr>)
       = card (set (chat_history (init_default\<lparr>chat_history := [''yo'', ''hi'', ''yo'']\<rparr>)))"
proof -
  let ?self = "init_default\<lparr>chat_history := [''yo'', ''hi'', ''yo'']\<rparr>"
  have h: "\<forall>S::string set. finite S \<longrightarrow> set (sorted_list_of_set S) = S \<and> distinct (sorted_list_of_set S)"
    by simp
  have c: "chat_history ?self = [''yo'', ''hi'', ''yo'']" by simp
  have e: "sorted_list_of_set (set [''yo'', ''hi'', ''yo'']) = [''hi'', ''yo'']" by code_simp
  have g: "get_unique_chat_history sorted_list_of_set ?self = [''hi'', ''yo'']"
    unfolding get_unique_chat_history_def c by (rule e)
  have u: "unique_chat_history sorted_list_of_set ?self = [''hi'', ''yo'']"
    unfolding unique_chat_history_def c by (rule e)
  have l: "get_unique_chat_history_length sorted_list_of_set ?self = 2"
    unfolding get_unique_chat_history_length_def c e by simp
  have n: "get_chat_history_length ?self = 3"
    unfolding get_chat_history_length_def c by simp
  from unique_chat_history_distinct[OF h, of ?self]
  have k: "get_unique_chat_history_length sorted_list_of_set ?self = card (set (chat_history ?self))"
    by blast
  from g u l n k show ?thesis by blast
qed

end
